theory Spec2Isabelle
  imports
    Main
    "HOL-Library.Word"
    "HOL-Library.Finite_Map"
    "HOL-Library.Char_ord"
    "HOL-Library.List_Lexorder"
begin

section \<open>The overflow cache of the tplink\_gateway input\<close>

text \<open>
  The development embeds \<^verbatim>\<open>plugins/inputs/tplink_gateway/overflow_cache.go\<close>: a cache
  that turns wrapping device counters into cumulative values and keeps the accumulated
  corrections in a JSON file. The cache's own functions (\<^verbatim>\<open>init\<close>, \<^verbatim>\<open>setup\<close>,
  \<^verbatim>\<open>checkOverflow\<close>, \<^verbatim>\<open>get\<close>, \<^verbatim>\<open>load\<close>, \<^verbatim>\<open>dump\<close>) are translated line by line.
  What they call in Go's runtime and standard library (map access, \<^verbatim>\<open>ioutil.ReadFile\<close>,
  \<^verbatim>\<open>ioutil.WriteFile\<close>, \<^verbatim>\<open>json.Marshal\<close>, \<^verbatim>\<open>json.Unmarshal\<close>) is modelled from the
  documented behaviour of these functions, each where it is introduced. The calls of
  \<^verbatim>\<open>log.Printf\<close> only write diagnostics and are left out.
\<close>

subsection \<open>Go values: \<^verbatim>\<open>uint64\<close>, \<^verbatim>\<open>string\<close>, \<^verbatim>\<open>map[string]uint64\<close>\<close>

text \<open>
  A \<^verbatim>\<open>uint64\<close> is a 64-bit word: \<open>+\<close> wraps around and \<open><\<close> compares unsigned. A Go
  \<^verbatim>\<open>string\<close> is a sequence of bytes, as is a HOL \<open>string\<close>. A value of type
  \<^verbatim>\<open>map[string]uint64\<close> is either \<^verbatim>\<open>nil\<close> (\<open>None\<close>) or a finite table. Reading a key that
  is absent, or reading from the nil map, gives the zero value; assigning to an entry of
  the nil map panics.
\<close>

type_synonym uint64 = "64 word"

type_synonym table = "(string, uint64) fmap"

type_synonym gomap = "table option"

datatype panic = AssignmentToEntryInNilMap

definition lookup :: "table \<Rightarrow> string \<Rightarrow> uint64" where
  "lookup t k = (case fmlookup t k of None \<Rightarrow> 0 | Some v \<Rightarrow> v)"

definition mapaccess :: "gomap \<Rightarrow> string \<Rightarrow> uint64" where
  "mapaccess m k = (case m of None \<Rightarrow> 0 | Some t \<Rightarrow> lookup t k)"

definition mapaccess_ok :: "gomap \<Rightarrow> string \<Rightarrow> bool" where
  "mapaccess_ok m k = (case m of None \<Rightarrow> False | Some t \<Rightarrow> fmlookup t k \<noteq> None)"

definition mapassign :: "gomap \<Rightarrow> string \<Rightarrow> uint64 \<Rightarrow> panic + gomap" where
  "mapassign m k v =
     (case m of None \<Rightarrow> Inl AssignmentToEntryInNilMap | Some t \<Rightarrow> Inr (Some (fmupd k v t)))"

subsection \<open>UTF-8 coercion of strings by \<^verbatim>\<open>json.Marshal\<close>\<close>

text \<open>
  \<^verbatim>\<open>json.Marshal\<close> encodes strings, and map keys of string type, "coerced to valid UTF-8,
  replacing invalid bytes with the Unicode replacement rune". \<open>runeWidth\<close> is the size
  that \<^verbatim>\<open>utf8.DecodeRuneInString\<close> finds for the encoding at the head of a string, with 0
  for a byte that starts no valid encoding; the ranges are those of the
  \<^verbatim>\<open>unicode/utf8\<close> package (no overlong forms, no surrogates, nothing above U+10FFFF).
\<close>

definition between :: "nat \<Rightarrow> nat \<Rightarrow> char \<Rightarrow> bool" where
  "between lo hi b = (lo \<le> of_char b \<and> of_char b \<le> hi)"

fun runeWidth :: "string \<Rightarrow> nat" where
  "runeWidth [] = 0"
| "runeWidth (b0 # bs) =
     (if between 0x00 0x7F b0 then 1
      else if between 0xC2 0xDF b0 then
        (case bs of
           b1 # _ \<Rightarrow> if between 0x80 0xBF b1 then 2 else 0
         | _ \<Rightarrow> 0)
      else if between 0xE0 0xEF b0 then
        (case bs of
           b1 # b2 # _ \<Rightarrow>
             if between (if of_char b0 = (0xE0::nat) then 0xA0 else 0x80)
                        (if of_char b0 = (0xED::nat) then 0x9F else 0xBF) b1
                \<and> between 0x80 0xBF b2
             then 3 else 0
         | _ \<Rightarrow> 0)
      else if between 0xF0 0xF4 b0 then
        (case bs of
           b1 # b2 # b3 # _ \<Rightarrow>
             if between (if of_char b0 = (0xF0::nat) then 0x90 else 0x80)
                        (if of_char b0 = (0xF4::nat) then 0x8F else 0xBF) b1
                \<and> between 0x80 0xBF b2 \<and> between 0x80 0xBF b3
             then 4 else 0
         | _ \<Rightarrow> 0)
      else 0)"

definition replacementRune :: string where
  "replacementRune = [CHR 0xEF, CHR 0xBF, CHR 0xBD]"

text \<open>
  The encoder's loop over the bytes of a string: a valid encoding is kept, a byte that
  starts none becomes U+FFFD. The first argument counts the bytes of the current encoding
  that remain to be copied.
\<close>

fun coerceFrom :: "nat \<Rightarrow> string \<Rightarrow> string" where
  "coerceFrom n [] = []"
| "coerceFrom (Suc n) (b # bs) = b # coerceFrom n bs"
| "coerceFrom 0 (b # bs) =
     (case runeWidth (b # bs) of
        0 \<Rightarrow> replacementRune @ coerceFrom 0 bs
      | Suc w \<Rightarrow> b # coerceFrom w bs)"

definition coerceUTF8 :: "string \<Rightarrow> string" where
  "coerceUTF8 s = coerceFrom 0 s"

text \<open>\<^verbatim>\<open>utf8.ValidString\<close>: every byte belongs to a valid encoding.\<close>

fun validFrom :: "nat \<Rightarrow> string \<Rightarrow> bool" where
  "validFrom n [] = True"
| "validFrom (Suc n) (b # bs) = validFrom n bs"
| "validFrom 0 (b # bs) =
     (case runeWidth (b # bs) of
        0 \<Rightarrow> False
      | Suc w \<Rightarrow> validFrom w bs)"

definition ValidString :: "string \<Rightarrow> bool" where
  "ValidString s = validFrom 0 s"

subsection \<open>JSON documents and files\<close>

text \<open>
  The content of a file is represented by what the scanner of \<^verbatim>\<open>encoding/json\<close> makes of
  its bytes: either they are not a JSON text (\<open>NotJSON\<close>, which includes the empty file), or
  they denote a JSON value. Strings of a document are the decoded Go strings (the decoder
  makes them valid UTF-8; no property below needs this). Of a number
  the model keeps what \<^verbatim>\<open>strconv.ParseUint\<close> needs: a literal made of digits only is
  \<open>JNat\<close> with its value, a literal with a sign, a fraction or an exponent is
  \<open>JOtherNumber\<close>. The members of an object are kept in the order of the text, duplicates
  included.
\<close>

datatype json =
    JNull
  | JBool bool
  | JNat nat
  | JOtherNumber
  | JString string
  | JArray "json list"
  | JObject "(string \<times> json) list"

datatype content = NotJSON | JSON json

datatype error = NotExist | PermissionDenied | SyntaxError | UnmarshalTypeError

text \<open>
  The file system, as far as \<^verbatim>\<open>ioutil.ReadFile\<close> and \<^verbatim>\<open>ioutil.WriteFile\<close> see it: the
  files that exist with their contents, the paths that cannot be read and the paths that
  cannot be written. The empty path names no file. A failed write is modelled as leaving
  the file system as it was.
\<close>

record disk =
  files :: "(string, content) fmap"
  unreadable :: "string set"
  unwritable :: "string set"

definition ReadFile :: "disk \<Rightarrow> string \<Rightarrow> error + content" where
  "ReadFile d path =
     (if path = [] then Inl NotExist
      else if path \<in> unreadable d then Inl PermissionDenied
      else case fmlookup (files d) path of
             None \<Rightarrow> Inl NotExist
           | Some content \<Rightarrow> Inr content)"

definition WriteFile :: "disk \<Rightarrow> string \<Rightarrow> content \<Rightarrow> error option \<times> disk" where
  "WriteFile d path content =
     (if path = [] then (Some NotExist, d)
      else if path \<in> unwritable d then (Some PermissionDenied, d)
      else (None, d\<lparr>files := fmupd path content (files d)\<rparr>))"

subsection \<open>\<^verbatim>\<open>json.Marshal\<close> and \<^verbatim>\<open>json.Unmarshal\<close> at type \<^verbatim>\<open>map[string]uint64\<close>\<close>

text \<open>
  \<^verbatim>\<open>json.Marshal\<close>: a nil map encodes as \<^verbatim>\<open>null\<close>; any other map encodes as an object whose
  members are the entries of the map in the sorted order of the keys, each key coerced to
  valid UTF-8 and each value written in decimal. At this type it returns no error.
\<close>

definition Marshal :: "gomap \<Rightarrow> error + content" where
  "Marshal m =
     (case m of
        None \<Rightarrow> Inr (JSON JNull)
      | Some t \<Rightarrow>
          Inr (JSON (JObject (map (\<lambda>(k, v). (coerceUTF8 k, JNat (unat v)))
                                  (sorted_list_of_fmap t)))))"

text \<open>
  \<^verbatim>\<open>json.Unmarshal\<close> into a \<^verbatim>\<open>uint64\<close> element of the map. The second component tells
  whether an \<^verbatim>\<open>UnmarshalTypeError\<close> was recorded: "if a JSON value is not appropriate for a
  given target type, or if a JSON number overflows the target type, Unmarshal skips that
  field and completes the unmarshaling as best it can". A skipped element keeps the zero
  value; \<^verbatim>\<open>null\<close> leaves a \<^verbatim>\<open>uint64\<close> as it is, without an error.
\<close>

fun element :: "json \<Rightarrow> uint64 \<times> bool" where
  "element (JNat n) = (if n < 2 ^ 64 then (of_nat n, False) else (0, True))"
| "element JNull = (0, False)"
| "element _ = (0, True)"

text \<open>
  The members of an object are stored one after the other into the map, a later duplicate
  over an earlier one; the element of a member is stored whether or not its value was
  appropriate.
\<close>

fun object :: "(string \<times> json) list \<Rightarrow> table \<Rightarrow> table \<times> bool" where
  "object [] t = (t, False)"
| "object ((k, j) # members) t =
     (let (v, bad) = element j;
          (t', bad') = object members (fmupd k v t)
      in (t', bad \<or> bad'))"

text \<open>
  \<^verbatim>\<open>json.Unmarshal(content, &m)\<close>: the whole text is checked first, so a text that is not
  JSON leaves \<open>m\<close> untouched. \<^verbatim>\<open>null\<close> sets the map to nil. For an object, "if the map is
  nil, Unmarshal allocates a new map. Otherwise Unmarshal reuses the existing map, keeping
  existing entries. Unmarshal then stores key-value pairs from the JSON object into the
  map." Any other value is not appropriate for a map: the error is reported and \<open>m\<close> is
  untouched.
\<close>

fun Unmarshal :: "content \<Rightarrow> gomap \<Rightarrow> error option \<times> gomap" where
  "Unmarshal NotJSON m = (Some SyntaxError, m)"
| "Unmarshal (JSON JNull) m = (None, None)"
| "Unmarshal (JSON (JObject members)) m =
     (let (t, bad) = object members (case m of None \<Rightarrow> fmempty | Some t \<Rightarrow> t)
      in (if bad then Some UnmarshalTypeError else None, Some t))"
| "Unmarshal (JSON _) m = (Some UnmarshalTypeError, m)"

subsection \<open>The cache\<close>

record overflowCache =
  filename :: string
  "values" :: gomap
  baseValues :: gomap

text \<open>\<^verbatim>\<open>new(overflowCache)\<close>: every field has its zero value.\<close>

definition new :: overflowCache where
  "new = \<lparr>filename = [], values = None, baseValues = None\<rparr>"

definition init :: "overflowCache \<Rightarrow> overflowCache" where
  "init c = c\<lparr>values := Some fmempty, baseValues := Some fmempty\<rparr>"

definition load :: "overflowCache \<Rightarrow> disk \<Rightarrow> error option \<times> overflowCache" where
  "load c d =
     (case ReadFile d (filename c) of
        Inl err \<Rightarrow> (Some err, c)
      | Inr content \<Rightarrow>
          (let (err, m) = Unmarshal content (baseValues c)
           in (err, c\<lparr>baseValues := m\<rparr>)))"

definition dump :: "overflowCache \<Rightarrow> disk \<Rightarrow> error option \<times> disk" where
  "dump c d =
     (case Marshal (baseValues c) of
        Inl err \<Rightarrow> (Some err, d)
      | Inr content \<Rightarrow> WriteFile d (filename c) content)"

text \<open>\<^verbatim>\<open>setup\<close> records the file name and loads; an error of \<^verbatim>\<open>load\<close> is only logged.\<close>

definition setup_cache :: "overflowCache \<Rightarrow> disk \<Rightarrow> string \<Rightarrow> overflowCache" where
  "setup_cache c d name = snd (load (c\<lparr>filename := name\<rparr>) d)"

text \<open>
  \<^verbatim>\<open>checkOverflow\<close> returns the corrected value and the overflow flag, together with the
  cache and the file system as it leaves them, or the panic that ends it. The deferred
  \<^verbatim>\<open>dump\<close> runs when the function returns, after the result has been computed; its error
  is only logged.
\<close>

definition checkOverflow ::
  "overflowCache \<Rightarrow> disk \<Rightarrow> string \<Rightarrow> string \<Rightarrow> uint64 \<Rightarrow> uint64
     \<Rightarrow> panic + ((uint64 \<times> bool) \<times> overflowCache \<times> disk)" where
  "checkOverflow c d section key currentValue increment =
     (let key = section @ ''_'' @ key;
          overflown = currentValue < mapaccess (values c) key
      in if overflown then
           (case (if \<not> mapaccess_ok (baseValues c) key
                  then mapassign (baseValues c) key 0
                  else Inr (baseValues c)) of
              Inl p \<Rightarrow> Inl p
            | Inr b0 \<Rightarrow>
                (case mapassign b0 key (mapaccess b0 key + increment) of
                   Inl p \<Rightarrow> Inl p
                 | Inr b1 \<Rightarrow>
                     (case mapassign (values c) key currentValue of
                        Inl p \<Rightarrow> Inl p
                      | Inr vs \<Rightarrow>
                          (let c' = c\<lparr>values := vs, baseValues := b1\<rparr>
                           in Inr ((currentValue + mapaccess b1 key, True),
                                   c', snd (dump c' d))))))
         else
           (case mapassign (values c) key currentValue of
              Inl p \<Rightarrow> Inl p
            | Inr vs \<Rightarrow>
                Inr ((currentValue + mapaccess (baseValues c) key, False),
                     c\<lparr>values := vs\<rparr>, d)))"

definition get ::
  "overflowCache \<Rightarrow> disk \<Rightarrow> string \<Rightarrow> string \<Rightarrow> uint64 \<Rightarrow> uint64
     \<Rightarrow> panic + (uint64 \<times> overflowCache \<times> disk)" where
  "get c d section key currentValue increment =
     (case checkOverflow c d section key currentValue increment of
        Inl p \<Rightarrow> Inl p
      | Inr ((v, _), c', d') \<Rightarrow> Inr (v, c', d'))"

subsection \<open>Successive observations of one counter\<close>

text \<open>
  A collector polls a counter again and again through \<^verbatim>\<open>checkOverflow\<close>. \<open>observeAll\<close>
  feeds a list of raw readings of one counter to the cache, one call after the other, and
  collects what the calls return; a panic ends the run. \<open>outputs\<close> projects a run on
  the returned pairs.
\<close>

fun observeAll ::
  "overflowCache \<Rightarrow> disk \<Rightarrow> string \<Rightarrow> string \<Rightarrow> uint64 list \<Rightarrow> uint64
     \<Rightarrow> panic + ((uint64 \<times> bool) list \<times> overflowCache \<times> disk)" where
  "observeAll c d section key [] increment = Inr ([], c, d)"
| "observeAll c d section key (v # vs) increment =
     (case checkOverflow c d section key v increment of
        Inl p \<Rightarrow> Inl p
      | Inr (r, c', d') \<Rightarrow>
          (case observeAll c' d' section key vs increment of
             Inl p \<Rightarrow> Inl p
           | Inr (rs, c'', d'') \<Rightarrow> Inr (r # rs, c'', d'')))"

definition outputs ::
  "panic + ((uint64 \<times> bool) list \<times> overflowCache \<times> disk) \<Rightarrow> (uint64 \<times> bool) list option" where
  "outputs run = (case run of Inl p \<Rightarrow> None | Inr (rs, c, d) \<Rightarrow> Some rs)"

text \<open>A file system without files, for concrete runs.\<close>

definition noFiles :: disk where
  "noFiles = \<lparr>files = fmempty, unreadable = {}, unwritable = {}\<rparr>"

subsection \<open>What a file says\<close>

text \<open>
  The persisted format is a JSON object that maps counter identities to \<^verbatim>\<open>uint64\<close>
  offsets. \<open>flat\<close> tells whether the members of an object are of this form: every value
  is a number written with digits only and below \<open>2 ^ 64\<close>. \<open>fileTable\<close> is the mapping
  such an object denotes, a later member replacing an earlier one with the same key.
  \<open>orEmpty\<close> reads a map as a table, the nil map as the empty one.
\<close>

definition flat :: "(string \<times> json) list \<Rightarrow> bool" where
  "flat members = list_all (\<lambda>(k, j). case j of JNat n \<Rightarrow> n < 2 ^ 64 | _ \<Rightarrow> False) members"

definition fileTable :: "(string \<times> json) list \<Rightarrow> table" where
  "fileTable members =
     fold (\<lambda>(k, j). fmupd k (case j of JNat n \<Rightarrow> of_nat n | _ \<Rightarrow> 0)) members fmempty"

definition orEmpty :: "gomap \<Rightarrow> table" where
  "orEmpty m = (case m of None \<Rightarrow> fmempty | Some t \<Rightarrow> t)"

section \<open>Properties of \<^verbatim>\<open>checkOverflow\<close>\<close>

subsection \<open>What one call does\<close>

lemma mapaccess_Some [simp]: "mapaccess (Some t) k = lookup t k"
  by (simp add: mapaccess_def)

lemma mapaccess_None [simp]: "mapaccess None k = 0"
  by (simp add: mapaccess_def)

lemma lookup_fmupd [simp]: "lookup (fmupd k v t) k' = (if k = k' then v else lookup t k')"
  by (simp add: lookup_def)

lemma lookup_fmempty [simp]: "lookup fmempty k = 0"
  by (simp add: lookup_def)

text \<open>\<^verbatim>\<open>get\<close> is \<^verbatim>\<open>checkOverflow\<close> without the flag.\<close>

lemma get_checkOverflow:
  "get c d section key v increment =
     map_sum id (\<lambda>((r, ov), c', d'). (r, c', d')) (checkOverflow c d section key v increment)"
  by (auto simp: get_def split: sum.splits)

text \<open>No wraparound is seen: the offsets and the file system stay as they are.\<close>

lemma checkOverflow_steady:
  assumes "values c = Some vs" and "\<not> v < lookup vs (section @ ''_'' @ key)"
  shows "checkOverflow c d section key v increment =
           Inr ((v + mapaccess (baseValues c) (section @ ''_'' @ key), False),
                c\<lparr>values := Some (fmupd (section @ ''_'' @ key) v vs)\<rparr>, d)"
  using assms by (simp add: checkOverflow_def mapassign_def Let_def)

text \<open>A wraparound is seen: the offset of the counter grows by the increment.\<close>

lemma checkOverflow_wrapped:
  assumes "values c = Some vs" and "baseValues c = Some t"
    and "v < lookup vs (section @ ''_'' @ key)"
  shows "checkOverflow c d section key v increment =
           Inr ((v + (lookup t (section @ ''_'' @ key) + increment), True),
                c\<lparr>values := Some (fmupd (section @ ''_'' @ key) v vs),
                  baseValues := Some (fmupd (section @ ''_'' @ key)
                                        (lookup t (section @ ''_'' @ key) + increment) t)\<rparr>,
                snd (dump (c\<lparr>values := Some (fmupd (section @ ''_'' @ key) v vs),
                             baseValues := Some (fmupd (section @ ''_'' @ key)
                                        (lookup t (section @ ''_'' @ key) + increment) t)\<rparr>) d))"
  using assms
  by (simp add: checkOverflow_def mapassign_def mapaccess_ok_def Let_def lookup_def
      split: option.splits)

text \<open>The call panics in two cases only: no map of readings, or a wraparound and no map of offsets.\<close>

lemma checkOverflow_panics:
  "checkOverflow c d section key v increment = Inl p \<longleftrightarrow>
     values c = None \<or> (v < mapaccess (values c) (section @ ''_'' @ key) \<and> baseValues c = None)"
  by (cases p; cases "values c"; cases "baseValues c")
     (auto simp: checkOverflow_def mapassign_def mapaccess_ok_def Let_def split: option.splits)

lemma checkOverflow_cases:
  assumes "checkOverflow c d section key v increment = Inr ((r, ov), c', d')"
  obtains (steady) vs where "values c = Some vs" "\<not> v < lookup vs (section @ ''_'' @ key)"
      "\<not> ov" "r = v + mapaccess (baseValues c) (section @ ''_'' @ key)"
      "c' = c\<lparr>values := Some (fmupd (section @ ''_'' @ key) v vs)\<rparr>" "d' = d"
  | (wrapped) vs t where "values c = Some vs" "baseValues c = Some t"
      "v < lookup vs (section @ ''_'' @ key)" "ov"
      "r = v + (lookup t (section @ ''_'' @ key) + increment)"
      "c' = c\<lparr>values := Some (fmupd (section @ ''_'' @ key) v vs),
               baseValues := Some (fmupd (section @ ''_'' @ key)
                                     (lookup t (section @ ''_'' @ key) + increment) t)\<rparr>"
      "d' = snd (dump c' d)"
proof (cases "values c")
  case None
  then have "checkOverflow c d section key v increment = Inl AssignmentToEntryInNilMap"
    using checkOverflow_panics [of c d "section" key v increment AssignmentToEntryInNilMap]
    by simp
  with assms show ?thesis by simp
next
  case (Some vs)
  show ?thesis
  proof (cases "v < lookup vs (section @ ''_'' @ key)")
    case False
    from checkOverflow_steady [OF Some False, of d increment] assms
    show ?thesis using Some False by (intro steady [of vs]) auto
  next
    case True
    show ?thesis
    proof (cases "baseValues c")
      case None
      then have "checkOverflow c d section key v increment = Inl AssignmentToEntryInNilMap"
        using checkOverflow_panics [of c d "section" key v increment AssignmentToEntryInNilMap]
          Some True by simp
      with assms show ?thesis by simp
    next
      case (Some t)
      from checkOverflow_wrapped [OF \<open>values c = Some vs\<close> Some True, of d increment] assms
      show ?thesis using \<open>values c = Some vs\<close> Some True by (intro wrapped [of vs t]) auto
    qed
  qed
qed

text \<open>A call for one counter leaves the entries of every other counter alone.\<close>

lemma checkOverflow_other_counter:
  assumes "checkOverflow c d section key v increment = Inr ((r, ov), c', d')"
    and "k \<noteq> section @ ''_'' @ key"
  shows "mapaccess (values c') k = mapaccess (values c) k"
    and "mapaccess (baseValues c') k = mapaccess (baseValues c) k"
    and "values c' \<noteq> None"
    and "baseValues c' = None \<longleftrightarrow> baseValues c = None"
  using assms by (cases rule: checkOverflow_cases; simp)+

lemma mapaccess_ok_Some [simp]: "mapaccess_ok (Some t) k \<longleftrightarrow> fmlookup t k \<noteq> None"
  by (simp add: mapaccess_ok_def)

lemma mapaccess_ok_None [simp]: "\<not> mapaccess_ok None k"
  by (simp add: mapaccess_ok_def)

text \<open>Keys that are valid UTF-8 pass through \<^verbatim>\<open>json.Marshal\<close> unchanged.\<close>

declare runeWidth.simps [simp del]

lemma coerceFrom_valid: "validFrom n s \<Longrightarrow> coerceFrom n s = s"
  by (induction n s rule: coerceFrom.induct) (auto split: nat.splits)

lemma runeWidth_ascii: "of_char b < (128 :: nat) \<Longrightarrow> runeWidth (b # bs) = 1"
  by (simp add: runeWidth.simps between_def)

lemma coerceUTF8_valid: "ValidString s \<Longrightarrow> coerceUTF8 s = s"
  by (simp add: ValidString_def coerceUTF8_def coerceFrom_valid)

lemma validFrom_ascii: "\<forall>b \<in> set s. of_char b < (128 :: nat) \<Longrightarrow> validFrom 0 s"
  by (induction s) (auto simp: runeWidth_ascii)

lemma ValidString_ascii: "list_all (\<lambda>b. of_char b < (128 :: nat)) s \<Longrightarrow> ValidString s"
  by (simp add: ValidString_def validFrom_ascii list_all_iff)

text \<open>
  A call that sees a wraparound writes the table of offsets to the file of the cache, when
  the file can be written; the entry of the counter is in it, under the key as
  \<^verbatim>\<open>json.Marshal\<close> writes it.
\<close>

lemma sorted_list_of_fmap_single: "sorted_list_of_fmap (fmupd k v fmempty) = [(k, v)]"
  by (simp add: sorted_list_of_fmap_def sorted_list_of_fset.rep_eq)

lemma Marshal_member:
  assumes "fmlookup t k = Some v"
  shows "\<exists>members. Marshal (Some t) = Inr (JSON (JObject members))
            \<and> (coerceUTF8 k, JNat (unat v)) \<in> set members"
proof -
  from assms have "k |\<in>| fmdom t" by (rule fmdomI)
  with assms have "(k, v) \<in> set (sorted_list_of_fmap t)"
    by (force simp: sorted_list_of_fmap_def)
  then have "(coerceUTF8 k, JNat (unat v)) \<in>
      set (map (\<lambda>(k, v). (coerceUTF8 k, JNat (unat v))) (sorted_list_of_fmap t))"
    by force
  then show ?thesis by (simp add: Marshal_def)
qed

lemma checkOverflow_persists:
  assumes "checkOverflow c d section key v increment = Inr ((r, True), c', d')"
    and "filename c \<noteq> []" and "filename c \<notin> unwritable d"
  shows "\<exists>members. fmlookup (files d') (filename c) = Some (JSON (JObject members))
            \<and> (coerceUTF8 (section @ ''_'' @ key),
                 JNat (unat (mapaccess (baseValues c') (section @ ''_'' @ key)))) \<in> set members"
  using assms(1)
proof (cases rule: checkOverflow_cases)
  case (steady vs)
  then show ?thesis by simp
next
  case (wrapped vs t)
  let ?k = "section @ ''_'' @ key"
  let ?t = "fmupd ?k (lookup t ?k + increment) t"
  have "fmlookup ?t ?k = Some (lookup t ?k + increment)" by simp
  from Marshal_member [OF this] obtain members
    where m: "Marshal (Some ?t) = Inr (JSON (JObject members))"
      and k: "(coerceUTF8 ?k, JNat (unat (lookup t ?k + increment))) \<in> set members"
    by blast
  from wrapped m assms(2,3) have "fmlookup (files d') (filename c) = Some (JSON (JObject members))"
    by (simp add: dump_def WriteFile_def)
  with k wrapped show ?thesis by auto
qed

subsection \<open>First observation\<close>

text \<open>
  C4. In a cache that holds no reading for the counter, \<^verbatim>\<open>checkOverflow\<close> returns the raw
  value plus the offset stored for the counter (zero when there is none, whether the
  entry or the whole map is missing) and reports no overflow: the absent reading counts
  as 0, and no unsigned value is below 0. The call records the reading and changes nothing
  else. In particular the first call on a cache fresh from \<^verbatim>\<open>init\<close>, with raw value 0 and
  increment 1000, returns \<open>(0, False)\<close>.
\<close>

theorem first_observation:
  "(values c = Some vs \<and> fmlookup vs (section @ ''_'' @ key) = None \<longrightarrow>
      checkOverflow c d section key currentValue increment =
        Inr ((currentValue + mapaccess (baseValues c) (section @ ''_'' @ key), False),
             c\<lparr>values := Some (fmupd (section @ ''_'' @ key) currentValue vs)\<rparr>, d))
   \<and> checkOverflow (init c0) d0 section key 0 1000 =
        Inr ((0, False),
             (init c0)\<lparr>values := Some (fmupd (section @ ''_'' @ key) 0 fmempty)\<rparr>, d0)"
proof (intro conjI impI)
  assume h: "values c = Some vs \<and> fmlookup vs (section @ ''_'' @ key) = None"
  then have "\<not> currentValue < lookup vs (section @ ''_'' @ key)"
    by (simp add: lookup_def)
  with h show "checkOverflow c d section key currentValue increment =
        Inr ((currentValue + mapaccess (baseValues c) (section @ ''_'' @ key), False),
             c\<lparr>values := Some (fmupd (section @ ''_'' @ key) currentValue vs)\<rparr>, d)"
    by (simp add: checkOverflow_steady)
next
  have "values (init c0) = Some fmempty" "baseValues (init c0) = Some fmempty"
    by (simp_all add: init_def)
  then show "checkOverflow (init c0) d0 section key 0 1000 =
        Inr ((0, False),
             (init c0)\<lparr>values := Some (fmupd (section @ ''_'' @ key) 0 fmempty)\<rparr>, d0)"
    using checkOverflow_steady [of "init c0" fmempty 0 "section" key d0 1000] by simp
qed

theorem first_observation_witness:
  "values ((init new)\<lparr>baseValues := Some (fmupd ''status_uptime'' 1000 fmempty)\<rparr>) = Some fmempty
   \<and> fmlookup (fmempty :: table) (''status'' @ ''_'' @ ''uptime'') = None
   \<and> checkOverflow ((init new)\<lparr>baseValues := Some (fmupd ''status_uptime'' 1000 fmempty)\<rparr>)
        noFiles ''status'' ''uptime'' 42 7 =
      Inr ((1042, False),
           \<lparr>filename = [], values = Some (fmupd ''status_uptime'' 42 fmempty),
            baseValues = Some (fmupd ''status_uptime'' 1000 fmempty)\<rparr>, noFiles)"
  using first_observation
    [of "(init new)\<lparr>baseValues := Some (fmupd ''status_uptime'' 1000 fmempty)\<rparr>" fmempty
        "''status''" "''uptime''" noFiles 42 7]
  by (simp add: init_def new_def)

subsection \<open>A wraparound and the calls after it\<close>

text \<open>
  C2, as the code has it. On a cache fresh from \<^verbatim>\<open>init\<close>, with increment 1000, the
  readings 100, 50 of one counter give \<open>(100, False)\<close>, \<open>(1050, True)\<close>. Going on with
  the reading 5 is a second wraparound (5 is below the last reading 50), so the offset
  grows to 2000 and the call gives \<open>(2005, True)\<close>; the same reading again gives
  \<open>(2005, False)\<close>, an unchanged reading being no overflow. The outputs \<open>(1005, True)\<close>
  and \<open>(1005, False)\<close> belong to the run 0, 10, 5, 5 on a fresh cache, where 5 is the
  first wraparound.
\<close>

theorem wrap_then_steady:
  "outputs (observeAll (init c) d section key [100, 50] 1000) =
     Some [(100, False), (1050, True)]
   \<and> outputs (observeAll (init c) d section key [100, 50, 5, 5] 1000) =
     Some [(100, False), (1050, True), (2005, True), (2005, False)]
   \<and> outputs (observeAll (init c) d section key [0, 10, 5, 5] 1000) =
     Some [(0, False), (10, False), (1005, True), (1005, False)]"
  by (simp add: outputs_def checkOverflow_def init_def mapassign_def Let_def)

text \<open>
  The claim as it is written expects \<open>(1005, True)\<close> and \<open>(1005, False)\<close> after the
  readings 100, 50; the code does not return them.
\<close>

theorem wrap_then_steady_counterexample:
  "outputs (observeAll (init new) noFiles ''status'' ''sent_bytes'' [100, 50, 5, 5] 1000) \<noteq>
     Some [(100, False), (1050, True), (1005, True), (1005, False)]"
  by (simp add: outputs_def checkOverflow_def init_def new_def mapassign_def Let_def)

subsection \<open>The identity of a counter\<close>

text \<open>
  C9, as the code has it. The key under which \<^verbatim>\<open>checkOverflow\<close> keeps a counter is the
  section, an underscore and the metric, in this order: \<^verbatim>\<open>section + "_" + key\<close>. This is
  the entry whose last reading decides the overflow, whose offset is added to the result
  and whose reading is replaced; the call leaves every other entry of both maps as it
  was. When the call writes the table to the file, the offset stands there under the same
  key coerced to valid UTF-8, which is the key itself when it is valid UTF-8. The key is a
  function of the pair, so the same pair always gives the same key.
\<close>

theorem counter_identity:
  assumes "checkOverflow c d section key v increment = Inr ((r, ov), c', d')"
  shows "(ov \<longleftrightarrow> v < mapaccess (values c) (section @ ''_'' @ key))
    \<and> r = v + mapaccess (baseValues c') (section @ ''_'' @ key)
    \<and> mapaccess_ok (values c') (section @ ''_'' @ key)
    \<and> mapaccess (values c') (section @ ''_'' @ key) = v
    \<and> (ov \<longrightarrow> mapaccess_ok (baseValues c') (section @ ''_'' @ key))
    \<and> (\<forall>k. k \<noteq> section @ ''_'' @ key \<longrightarrow>
          mapaccess_ok (values c') k = mapaccess_ok (values c) k
          \<and> mapaccess (values c') k = mapaccess (values c) k
          \<and> mapaccess_ok (baseValues c') k = mapaccess_ok (baseValues c) k
          \<and> mapaccess (baseValues c') k = mapaccess (baseValues c) k)
    \<and> (ov \<and> filename c \<noteq> [] \<and> filename c \<notin> unwritable d \<longrightarrow>
          (\<exists>members. fmlookup (files d') (filename c) = Some (JSON (JObject members))
              \<and> (coerceUTF8 (section @ ''_'' @ key),
                   JNat (unat (mapaccess (baseValues c') (section @ ''_'' @ key)))) \<in> set members))
    \<and> (ValidString (section @ ''_'' @ key) \<longrightarrow>
          coerceUTF8 (section @ ''_'' @ key) = section @ ''_'' @ key)"
proof -
  have maps: "(ov \<longleftrightarrow> v < mapaccess (values c) (section @ ''_'' @ key))
    \<and> r = v + mapaccess (baseValues c') (section @ ''_'' @ key)
    \<and> mapaccess_ok (values c') (section @ ''_'' @ key)
    \<and> mapaccess (values c') (section @ ''_'' @ key) = v
    \<and> (ov \<longrightarrow> mapaccess_ok (baseValues c') (section @ ''_'' @ key))
    \<and> (\<forall>k. k \<noteq> section @ ''_'' @ key \<longrightarrow>
          mapaccess_ok (values c') k = mapaccess_ok (values c) k
          \<and> mapaccess (values c') k = mapaccess (values c) k
          \<and> mapaccess_ok (baseValues c') k = mapaccess_ok (baseValues c) k
          \<and> mapaccess (baseValues c') k = mapaccess (baseValues c) k)"
    using assms by (cases rule: checkOverflow_cases) auto
  have persisted: "\<exists>members. fmlookup (files d') (filename c) = Some (JSON (JObject members))
              \<and> (coerceUTF8 (section @ ''_'' @ key),
                   JNat (unat (mapaccess (baseValues c') (section @ ''_'' @ key)))) \<in> set members"
    if "ov \<and> filename c \<noteq> [] \<and> filename c \<notin> unwritable d"
    using that assms by (intro checkOverflow_persists [of c d "section" key v increment r]) auto
  have valid: "coerceUTF8 (section @ ''_'' @ key) = section @ ''_'' @ key"
    if "ValidString (section @ ''_'' @ key)"
    using that by (rule coerceUTF8_valid)
  from maps persisted valid show ?thesis by blast
qed

theorem counter_identity_witness:
  "checkOverflow \<lparr>filename = ''tpg_cache'', values = Some (fmupd ''status_uptime'' 10 fmempty),
                  baseValues = Some fmempty\<rparr> noFiles ''status'' ''uptime'' 5 0 =
     Inr ((5, True),
          \<lparr>filename = ''tpg_cache'', values = Some (fmupd ''status_uptime'' 5 fmempty),
           baseValues = Some (fmupd ''status_uptime'' 0 fmempty)\<rparr>,
          noFiles\<lparr>files := fmupd ''tpg_cache''
            (JSON (JObject [(''status_uptime'', JNat 0)])) fmempty\<rparr>)
   \<and> mapaccess_ok (Some (fmupd ''status_uptime'' 5 fmempty)) ''status_uptime''
   \<and> \<not> mapaccess_ok (Some (fmupd ''status_uptime'' 5 fmempty)) ''statusuptime''
   \<and> ValidString ''status_uptime''
   \<and> coerceUTF8 ''status_uptime'' = ''status_uptime''"
proof -
  let ?c = "\<lparr>filename = ''tpg_cache'', values = Some (fmupd ''status_uptime'' 10 fmempty),
                  baseValues = Some fmempty\<rparr>"
  have valid: "ValidString ''status_uptime''"
    by (rule ValidString_ascii) simp
  then have run: "checkOverflow ?c noFiles ''status'' ''uptime'' 5 0 =
     Inr ((5, True),
          \<lparr>filename = ''tpg_cache'', values = Some (fmupd ''status_uptime'' 5 fmempty),
           baseValues = Some (fmupd ''status_uptime'' 0 fmempty)\<rparr>,
          noFiles\<lparr>files := fmupd ''tpg_cache''
            (JSON (JObject [(''status_uptime'', JNat 0)])) fmempty\<rparr>)"
    by (simp add: checkOverflow_def mapassign_def Let_def dump_def Marshal_def
        sorted_list_of_fmap_single coerceUTF8_valid WriteFile_def noFiles_def)
  from counter_identity [OF run] valid
  have "coerceUTF8 ''status_uptime'' = ''status_uptime''" by simp
  with run valid show ?thesis by simp
qed

text \<open>
  The claim as it is written takes the key to be the section followed at once by the
  metric. After the call for section \<^verbatim>\<open>status\<close> and metric \<^verbatim>\<open>uptime\<close> the cache holds
  the reading under \<^verbatim>\<open>status_uptime\<close> and nothing under \<^verbatim>\<open>statusuptime\<close>.
\<close>

theorem counter_identity_counterexample:
  "(case checkOverflow (init new) noFiles ''status'' ''uptime'' 5 0 of
      Inl p \<Rightarrow> False
    | Inr (r, c', d') \<Rightarrow>
        \<not> mapaccess_ok (values c') (''status'' @ ''uptime'')
        \<and> mapaccess_ok (values c') ''status_uptime'')"
  by (simp add: checkOverflow_def init_def new_def mapassign_def Let_def)

subsection \<open>The offsets change on a wraparound only\<close>

text \<open>
  C3. Whatever the cache holds, a call of \<^verbatim>\<open>checkOverflow\<close> that returns reports an
  overflow exactly when the raw value is strictly below the last reading of the counter.
  When it reports none, the map of offsets is what it was. When it reports one, the offset
  of the counter has grown by the increment of the call (an offset that was missing counts
  as 0), and the entries of all other counters are what they were. So in every call each
  offset changes by a whole multiple of the increment (zero times or once). A call that
  panics returns no cache at all.
\<close>

theorem offsets_change_on_overflow_only:
  assumes "checkOverflow c d section key v increment = Inr ((r, ov), c', d')"
  shows "(ov \<longleftrightarrow> v < mapaccess (values c) (section @ ''_'' @ key))
    \<and> (\<not> ov \<longrightarrow> baseValues c' = baseValues c)
    \<and> (ov \<longrightarrow> mapaccess_ok (baseValues c') (section @ ''_'' @ key)
              \<and> mapaccess (baseValues c') (section @ ''_'' @ key) =
                  mapaccess (baseValues c) (section @ ''_'' @ key) + increment)
    \<and> (\<forall>k. k \<noteq> section @ ''_'' @ key \<longrightarrow>
          mapaccess_ok (baseValues c') k = mapaccess_ok (baseValues c) k
          \<and> mapaccess (baseValues c') k = mapaccess (baseValues c) k)
    \<and> (\<forall>k. \<exists>n::nat. mapaccess (baseValues c') k =
                        mapaccess (baseValues c) k + of_nat n * increment)"
proof -
  have multiple: "\<exists>n::nat. mapaccess (baseValues c') k =
                        mapaccess (baseValues c) k + of_nat n * increment" for k
    using assms
  proof (cases rule: checkOverflow_cases)
    case (steady vs)
    then have "mapaccess (baseValues c') k = mapaccess (baseValues c) k + of_nat 0 * increment"
      by simp
    then show ?thesis ..
  next
    case (wrapped vs t)
    show ?thesis
    proof (cases "k = section @ ''_'' @ key")
      case True
      with wrapped
      have "mapaccess (baseValues c') k = mapaccess (baseValues c) k + of_nat 1 * increment"
        by simp
      then show ?thesis ..
    next
      case False
      with wrapped
      have "mapaccess (baseValues c') k = mapaccess (baseValues c) k + of_nat 0 * increment"
        by simp
      then show ?thesis ..
    qed
  qed
  have rest: "(ov \<longleftrightarrow> v < mapaccess (values c) (section @ ''_'' @ key))
    \<and> (\<not> ov \<longrightarrow> baseValues c' = baseValues c)
    \<and> (ov \<longrightarrow> mapaccess_ok (baseValues c') (section @ ''_'' @ key)
              \<and> mapaccess (baseValues c') (section @ ''_'' @ key) =
                  mapaccess (baseValues c) (section @ ''_'' @ key) + increment)
    \<and> (\<forall>k. k \<noteq> section @ ''_'' @ key \<longrightarrow>
          mapaccess_ok (baseValues c') k = mapaccess_ok (baseValues c) k
          \<and> mapaccess (baseValues c') k = mapaccess (baseValues c) k)"
    using assms by (cases rule: checkOverflow_cases) auto
  from rest multiple show ?thesis by blast
qed

theorem offsets_change_on_overflow_only_witness:
  "checkOverflow ((init new)\<lparr>values := Some (fmupd ''status_sent_bytes'' 10 fmempty)\<rparr>)
      noFiles ''status'' ''sent_bytes'' 5 1000 =
     Inr ((1005, True),
          \<lparr>filename = [], values = Some (fmupd ''status_sent_bytes'' 5 fmempty),
           baseValues = Some (fmupd ''status_sent_bytes'' 1000 fmempty)\<rparr>, noFiles)
   \<and> mapaccess (Some (fmupd ''status_sent_bytes'' 1000 fmempty)) ''status_sent_bytes'' =
       mapaccess (Some fmempty) ''status_sent_bytes'' + 1000"
proof -
  have run: "checkOverflow ((init new)\<lparr>values := Some (fmupd ''status_sent_bytes'' 10 fmempty)\<rparr>)
      noFiles ''status'' ''sent_bytes'' 5 1000 =
     Inr ((1005, True),
          \<lparr>filename = [], values = Some (fmupd ''status_sent_bytes'' 5 fmempty),
           baseValues = Some (fmupd ''status_sent_bytes'' 1000 fmempty)\<rparr>, noFiles)"
    by (simp add: checkOverflow_def init_def new_def mapassign_def Let_def dump_def
        Marshal_def WriteFile_def noFiles_def)
  from offsets_change_on_overflow_only [OF run] run show ?thesis
    by (simp add: init_def new_def)
qed

text \<open>
  Over a run of calls for one counter the steps add up: the offset of the counter grows by
  the increment once for every overflow the run reports.
\<close>

lemma observeAll_offset:
  assumes "observeAll c d section key vs increment = Inr (rs, c', d')"
  shows "mapaccess (baseValues c') (section @ ''_'' @ key) =
           mapaccess (baseValues c) (section @ ''_'' @ key)
             + of_nat (length (filter snd rs)) * increment"
  using assms
proof (induction vs arbitrary: c d rs)
  case Nil
  then show ?case by simp
next
  case (Cons v vs)
  from Cons.prems obtain r ov c1 d1 rs1
    where first: "checkOverflow c d section key v increment = Inr ((r, ov), c1, d1)"
      and rest: "observeAll c1 d1 section key vs increment = Inr (rs1, c', d')"
      and rs: "rs = (r, ov) # rs1"
    by (auto split: sum.splits)
  from first have step: "mapaccess (baseValues c1) (section @ ''_'' @ key) =
      mapaccess (baseValues c) (section @ ''_'' @ key) + (if ov then increment else 0)"
    by (cases rule: checkOverflow_cases) auto
  from Cons.IH [OF rest] step rs show ?case
    by (simp add: algebra_simps)
qed

subsection \<open>Readings that never go down\<close>

lemma observeAll_steady:
  assumes "values c = Some t"
    and "mapaccess (baseValues c) (section @ ''_'' @ key) = 0"
    and "sorted vs"
    and "\<forall>v \<in> set vs. \<not> v < lookup t (section @ ''_'' @ key)"
  shows "observeAll c d section key vs increment =
           Inr (map (\<lambda>v. (v, False)) vs,
                c\<lparr>values := Some (fold (\<lambda>v. fmupd (section @ ''_'' @ key) v) vs t)\<rparr>, d)"
  using assms
proof (induction vs arbitrary: c t)
  case Nil
  then show ?case by simp
next
  case (Cons v vs)
  let ?k = "section @ ''_'' @ key"
  let ?c1 = "c\<lparr>values := Some (fmupd ?k v t)\<rparr>"
  from Cons.prems have first: "checkOverflow c d section key v increment = Inr ((v, False), ?c1, d)"
    by (simp add: checkOverflow_steady)
  have "observeAll ?c1 d section key vs increment =
           Inr (map (\<lambda>v. (v, False)) vs,
                ?c1\<lparr>values := Some (fold (\<lambda>v. fmupd ?k v) vs (fmupd ?k v t))\<rparr>, d)"
  proof (rule Cons.IH)
    show "values ?c1 = Some (fmupd ?k v t)" by simp
    show "mapaccess (baseValues ?c1) ?k = 0" using Cons.prems by simp
    show "sorted vs" using Cons.prems by simp
    show "\<forall>v' \<in> set vs. \<not> v' < lookup (fmupd ?k v t) ?k" using Cons.prems by auto
  qed
  with first show ?case by simp
qed

text \<open>
  C5. On a cache fresh from \<^verbatim>\<open>init\<close>, a run of readings of one counter that never go down
  returns every reading as it is, with no overflow reported, and does not panic. This
  holds for every increment, so in particular when the readings stay below it.
\<close>

theorem no_wrap_returns_raw:
  assumes "sorted vs" and "\<forall>v \<in> set vs. v < increment"
  shows "outputs (observeAll (init c) d section key vs increment) =
           Some (map (\<lambda>v. (v, False)) vs)"
proof -
  have "observeAll (init c) d section key vs increment =
           Inr (map (\<lambda>v. (v, False)) vs,
                (init c)\<lparr>values := Some (fold (\<lambda>v. fmupd (section @ ''_'' @ key) v) vs fmempty)\<rparr>,
                d)"
    using assms(1) by (intro observeAll_steady) (simp_all add: init_def)
  then show ?thesis by (simp add: outputs_def)
qed

theorem no_wrap_returns_raw_witness:
  "sorted [3, 3, 7, 900 :: uint64] \<and> list_all (\<lambda>v. v < 1000) [3, 3, 7, 900 :: uint64]
   \<and> outputs (observeAll (init new) noFiles ''status'' ''sent_bytes'' [3, 3, 7, 900] 1000) =
       Some [(3, False), (3, False), (7, False), (900, False)]"
  using no_wrap_returns_raw [of "[3, 3, 7, 900]" 1000 new noFiles "''status''" "''sent_bytes''"]
  by simp

subsection \<open>Arithmetic modulo \<open>2 ^ 64\<close>\<close>

text \<open>
  C10. The result of \<^verbatim>\<open>checkOverflow\<close> and the offset it accumulates are sums of
  \<^verbatim>\<open>uint64\<close> values, taken modulo \<open>2 ^ 64\<close>: the result is the raw value plus the offset
  the call leaves behind, and on an overflow that offset is the old one plus the
  increment. So a result can be below the raw value it corrects: on a cache fresh from
  \<^verbatim>\<open>init\<close>, with the increment \<open>2 ^ 64 - 1\<close>, the readings 5, 3 return 5 and then 2.
\<close>

theorem arithmetic_is_modular:
  "(checkOverflow c d section key v increment = Inr ((r, ov), c', d') \<longrightarrow>
      unat r = (unat v + unat (mapaccess (baseValues c') (section @ ''_'' @ key))) mod 2 ^ 64
      \<and> (ov \<longrightarrow> unat (mapaccess (baseValues c') (section @ ''_'' @ key)) =
                  (unat (mapaccess (baseValues c) (section @ ''_'' @ key)) + unat increment)
                    mod 2 ^ 64))
   \<and> (\<exists>vs inc rs. outputs (observeAll (init new) noFiles ''status'' ''sent_bytes'' vs inc) = Some rs
          \<and> vs \<noteq> [] \<and> rs \<noteq> [] \<and> fst (last rs) < last vs)"
proof (intro conjI impI)
  assume run: "checkOverflow c d section key v increment = Inr ((r, ov), c', d')"
  then have r: "r = v + mapaccess (baseValues c') (section @ ''_'' @ key)"
    by (cases rule: checkOverflow_cases) auto
  show "unat r = (unat v + unat (mapaccess (baseValues c') (section @ ''_'' @ key))) mod 2 ^ 64"
    unfolding r by (simp add: unat_word_ariths)
  assume ov
  with run have "mapaccess (baseValues c') (section @ ''_'' @ key) =
      mapaccess (baseValues c) (section @ ''_'' @ key) + increment"
    by (cases rule: checkOverflow_cases) auto
  then show "unat (mapaccess (baseValues c') (section @ ''_'' @ key)) =
      (unat (mapaccess (baseValues c) (section @ ''_'' @ key)) + unat increment) mod 2 ^ 64"
    by (simp add: unat_word_ariths)
next
  have "outputs (observeAll (init new) noFiles ''status'' ''sent_bytes''
          [5, 3] 0xFFFFFFFFFFFFFFFF) = Some [(5, False), (2, True)]"
    by (simp add: outputs_def checkOverflow_def init_def new_def mapassign_def Let_def)
  moreover have "fst (last [(5 :: uint64, False), (2, True)]) < last [5, 3 :: uint64]"
    by simp
  ultimately show "\<exists>vs inc rs.
      outputs (observeAll (init new) noFiles ''status'' ''sent_bytes'' vs inc) = Some rs
      \<and> vs \<noteq> [] \<and> rs \<noteq> [] \<and> fst (last rs) < last vs"
    by blast
qed

theorem arithmetic_is_modular_witness:
  "checkOverflow ((init new)\<lparr>values := Some (fmupd ''status_sent_bytes'' 5 fmempty)\<rparr>)
      noFiles ''status'' ''sent_bytes'' 3 0xFFFFFFFFFFFFFFFF =
     Inr ((2, True),
          \<lparr>filename = [], values = Some (fmupd ''status_sent_bytes'' 3 fmempty),
           baseValues = Some (fmupd ''status_sent_bytes'' 0xFFFFFFFFFFFFFFFF fmempty)\<rparr>,
          noFiles)
   \<and> unat (2 :: uint64) =
       (unat (3 :: uint64)
        + unat (mapaccess (Some (fmupd ''status_sent_bytes'' 0xFFFFFFFFFFFFFFFF fmempty))
                  ''status_sent_bytes'')) mod 2 ^ 64"
proof -
  have run: "checkOverflow ((init new)\<lparr>values := Some (fmupd ''status_sent_bytes'' 5 fmempty)\<rparr>)
      noFiles ''status'' ''sent_bytes'' 3 0xFFFFFFFFFFFFFFFF =
     Inr ((2, True),
          \<lparr>filename = [], values = Some (fmupd ''status_sent_bytes'' 3 fmempty),
           baseValues = Some (fmupd ''status_sent_bytes'' 0xFFFFFFFFFFFFFFFF fmempty)\<rparr>,
          noFiles)"
    by (simp add: checkOverflow_def init_def new_def mapassign_def Let_def dump_def
        Marshal_def WriteFile_def noFiles_def)
  from arithmetic_is_modular
    [of "(init new)\<lparr>values := Some (fmupd ''status_sent_bytes'' 5 fmempty)\<rparr>" noFiles
        "''status''" "''sent_bytes''" 3 "0xFFFFFFFFFFFFFFFF" 2 True
        "\<lparr>filename = [], values = Some (fmupd ''status_sent_bytes'' 3 fmempty),
           baseValues = Some (fmupd ''status_sent_bytes'' 0xFFFFFFFFFFFFFFFF fmempty)\<rparr>"
        noFiles] run
  show ?thesis by simp
qed

subsection \<open>Two calls in a row\<close>

lemma checkOverflow_records:
  assumes "checkOverflow c d section key v increment = Inr ((r, ov), c', d')"
  shows "\<exists>vs'. values c' = Some vs' \<and> lookup vs' (section @ ''_'' @ key) = v"
    and "r = v + mapaccess (baseValues c') (section @ ''_'' @ key)"
  using assms by (cases rule: checkOverflow_cases; simp)+

lemma sum_le_steady:
  fixes v1 v2 b :: uint64
  assumes "v1 \<le> v2" and "unat v2 + unat b < 2 ^ 64"
  shows "v1 + b \<le> v2 + b"
proof -
  have "unat v1 \<le> unat v2"
    using assms(1) by (simp add: word_le_nat_alt)
  with assms(2) have "unat (v1 + b) = unat v1 + unat b" "unat (v2 + b) = unat v2 + unat b"
    by (simp_all add: unat_word_ariths)
  with \<open>unat v1 \<le> unat v2\<close> show ?thesis
    by (simp add: word_le_nat_alt)
qed

lemma sum_le_wrapped:
  fixes v1 v2 b inc :: uint64
  assumes "v1 < inc" and "unat v2 + unat b + unat inc < 2 ^ 64"
  shows "v1 + b \<le> v2 + (b + inc)"
proof -
  have lt: "unat v1 < unat inc"
    using assms(1) by (simp add: word_less_nat_alt)
  with assms(2) have l: "unat (v1 + b) = unat v1 + unat b"
    by (simp add: unat_word_ariths)
  from assms(2) have "unat (b + inc) = unat b + unat inc"
    by (simp add: unat_word_ariths)
  with assms(2) have r: "unat (v2 + (b + inc)) = unat v2 + unat b + unat inc"
    by (simp add: unat_word_ariths)
  from lt l r show ?thesis
    by (simp add: word_le_nat_alt)
qed

text \<open>
  C1, as the code has it. Take two calls of \<^verbatim>\<open>checkOverflow\<close> in a row for one counter,
  with the same increment and raw values below it, and suppose that the sum the later call
  forms (its raw value, the offset left by the earlier call and, when the raw value went
  down, the increment) stays below \<open>2 ^ 64\<close>. Then the later call returns whenever the
  map of offsets is not nil or the raw value did not go down, and what it returns is not
  below what the earlier call returned; it reports an overflow exactly when the raw value
  went down.
\<close>

theorem monotone_across_one_wrap:
  assumes "checkOverflow c d section key v1 increment = Inr ((r1, o1), c1, d1)"
    and "v1 < increment" and "v2 < increment"
    and "unat v2 + unat (mapaccess (baseValues c1) (section @ ''_'' @ key))
           + (if v2 < v1 then unat increment else 0) < 2 ^ 64"
  shows "(baseValues c1 \<noteq> None \<or> \<not> v2 < v1 \<longrightarrow>
            (\<exists>r2 o2 c2 d2. checkOverflow c1 d1 section key v2 increment = Inr ((r2, o2), c2, d2)))
    \<and> (\<forall>r2 o2 c2 d2. checkOverflow c1 d1 section key v2 increment = Inr ((r2, o2), c2, d2) \<longrightarrow>
          r1 \<le> r2 \<and> (o2 \<longleftrightarrow> v2 < v1))"
proof -
  let ?k = "section @ ''_'' @ key"
  from checkOverflow_records [OF assms(1)]
  obtain vs1 where vs1: "values c1 = Some vs1" "lookup vs1 ?k = v1"
    and r1: "r1 = v1 + mapaccess (baseValues c1) ?k"
    by blast
  have returns: "\<exists>r2 o2 c2 d2. checkOverflow c1 d1 section key v2 increment = Inr ((r2, o2), c2, d2)"
    if "baseValues c1 \<noteq> None \<or> \<not> v2 < v1"
  proof (cases "checkOverflow c1 d1 section key v2 increment")
    case (Inl p)
    with that vs1 show ?thesis
      by (simp add: checkOverflow_panics)
  next
    case (Inr x)
    then show ?thesis by (cases x) auto
  qed
  have ordered: "r1 \<le> r2 \<and> (o2 \<longleftrightarrow> v2 < v1)"
    if "checkOverflow c1 d1 section key v2 increment = Inr ((r2, o2), c2, d2)"
    for r2 o2 c2 d2
    using that
  proof (cases rule: checkOverflow_cases)
    case (steady vs)
    with vs1 have "v1 \<le> v2" "\<not> v2 < v1" by auto
    with assms(4) have "v1 + mapaccess (baseValues c1) ?k \<le> v2 + mapaccess (baseValues c1) ?k"
      by (intro sum_le_steady) simp_all
    with steady r1 \<open>\<not> v2 < v1\<close> show ?thesis by simp
  next
    case (wrapped vs t)
    with vs1 have down: "v2 < v1" by auto
    with assms(4) wrapped have "unat v2 + unat (lookup t ?k) + unat increment < 2 ^ 64"
      by simp
    with assms(2) have "v1 + lookup t ?k \<le> v2 + (lookup t ?k + increment)"
      by (intro sum_le_wrapped)
    with wrapped r1 down show ?thesis by simp
  qed
  from returns ordered show ?thesis by blast
qed

theorem monotone_across_one_wrap_witness:
  "checkOverflow (init new) noFiles ''status'' ''sent_bytes'' 100 1000 =
     Inr ((100, False),
          (init new)\<lparr>values := Some (fmupd ''status_sent_bytes'' 100 fmempty)\<rparr>, noFiles)
   \<and> (100 :: uint64) < 1000 \<and> (50 :: uint64) < 1000
   \<and> checkOverflow ((init new)\<lparr>values := Some (fmupd ''status_sent_bytes'' 100 fmempty)\<rparr>)
        noFiles ''status'' ''sent_bytes'' 50 1000 =
     Inr ((1050, True),
          \<lparr>filename = [], values = Some (fmupd ''status_sent_bytes'' 50 fmempty),
           baseValues = Some (fmupd ''status_sent_bytes'' 1000 fmempty)\<rparr>, noFiles)
   \<and> (100 :: uint64) \<le> 1050"
proof -
  let ?c1 = "(init new)\<lparr>values := Some (fmupd ''status_sent_bytes'' 100 fmempty)\<rparr>"
  have first: "checkOverflow (init new) noFiles ''status'' ''sent_bytes'' 100 1000 =
     Inr ((100, False), ?c1, noFiles)"
    by (simp add: checkOverflow_def init_def new_def mapassign_def Let_def)
  have below: "(100 :: uint64) < 1000" "(50 :: uint64) < 1000"
    by simp_all
  have fits: "unat (50 :: uint64) + unat (mapaccess (baseValues ?c1) (''status'' @ ''_'' @ ''sent_bytes''))
           + (if (50 :: uint64) < 100 then unat (1000 :: uint64) else 0) < 2 ^ 64"
    by (simp add: init_def new_def)
  have second: "checkOverflow ?c1 noFiles ''status'' ''sent_bytes'' 50 1000 =
     Inr ((1050, True),
          \<lparr>filename = [], values = Some (fmupd ''status_sent_bytes'' 50 fmempty),
           baseValues = Some (fmupd ''status_sent_bytes'' 1000 fmempty)\<rparr>, noFiles)"
    by (simp add: checkOverflow_def init_def new_def mapassign_def Let_def dump_def
        Marshal_def WriteFile_def noFiles_def)
  from monotone_across_one_wrap [OF first below fits] second
  have "(100 :: uint64) \<le> 1050" by blast
  with first below second show ?thesis by simp
qed

text \<open>
  The claim as it is written has no condition on the size of the sums. On a cache fresh
  from \<^verbatim>\<open>init\<close>, with the increment \<open>2 ^ 63\<close>, the readings 1, 0, 1, 0 are all below the
  increment, and the counter wraps once between the last two; the third call returns
  \<open>2 ^ 63 + 1\<close> and the fourth returns 0, the offset having wrapped around to 0.
\<close>

theorem monotone_across_one_wrap_counterexample:
  "outputs (observeAll (init new) noFiles ''status'' ''sent_bytes''
      [1, 0, 1, 0] 0x8000000000000000) =
     Some [(1, False), (0x8000000000000000, True), (0x8000000000000001, False), (0, True)]
   \<and> \<not> (0x8000000000000001 :: uint64) \<le> 0
   \<and> (1 :: uint64) < 0x8000000000000000 \<and> (0 :: uint64) < 0x8000000000000000"
  by (simp add: outputs_def checkOverflow_def init_def new_def mapassign_def Let_def)

section \<open>Properties of \<^verbatim>\<open>load\<close> and \<^verbatim>\<open>dump\<close>\<close>

subsection \<open>Decoding an object into a table\<close>

lemma object_fold:
  "object members t =
     (fold (\<lambda>(k, j). fmupd k (fst (element j))) members t,
      list_ex (\<lambda>(k, j). snd (element j)) members)"
  by (induction members arbitrary: t) (auto split: prod.splits)

lemma fold_fmupd_fmadd:
  "fold (\<lambda>(k, j). fmupd k (f j)) members t =
     t ++\<^sub>f fold (\<lambda>(k, j). fmupd k (f j)) members fmempty"
proof (induction members arbitrary: t rule: rev_induct)
  case Nil
  then show ?case by simp
next
  case (snoc x xs)
  obtain k j where x: "x = (k, j)" by (cases x)
  let ?store = "\<lambda>(k, j). fmupd k (f j)"
  have "fold ?store (xs @ [x]) t = fmupd k (f j) (fold ?store xs t)"
    by (simp add: x)
  also from snoc.IH [of t] have "\<dots> = fmupd k (f j) (t ++\<^sub>f fold ?store xs fmempty)"
    by (rule arg_cong)
  also have "\<dots> = t ++\<^sub>f fold ?store (xs @ [x]) fmempty"
    by (simp add: x)
  finally show ?case .
qed

lemma fold_fmupd_distinct:
  "distinct (map fst xs) \<Longrightarrow>
     fmlookup (fold (\<lambda>(k, v). fmupd k (f v)) xs t) x =
       (case map_of xs x of Some v \<Rightarrow> Some (f v) | None \<Rightarrow> fmlookup t x)"
proof (induction xs arbitrary: t)
  case Nil
  then show ?case by simp
next
  case (Cons p xs)
  obtain k v where p: "p = (k, v)" by (cases p)
  with Cons.prems have "map_of xs k = None"
    by (simp add: map_of_eq_None_iff)
  with Cons p show ?case by (auto split: option.splits)
qed

lemma object_flat:
  "flat members \<Longrightarrow>
     object members t =
       (fold (\<lambda>(k, j). fmupd k (case j of JNat n \<Rightarrow> of_nat n | _ \<Rightarrow> 0)) members t, False)"
  by (induction members arbitrary: t) (auto simp: flat_def split: json.splits)

lemma object_flat_fileTable:
  "flat members \<Longrightarrow> object members t = (t ++\<^sub>f fileTable members, False)"
  unfolding fileTable_def
  by (subst fold_fmupd_fmadd [symmetric]) (rule object_flat)

lemma load_object:
  assumes "ReadFile d (filename c) = Inr (JSON (JObject members))"
  shows "load c d =
     (if snd (object members (orEmpty (baseValues c))) then Some UnmarshalTypeError else None,
      c\<lparr>baseValues := Some (fst (object members (orEmpty (baseValues c))))\<rparr>)"
  using assms by (simp add: load_def orEmpty_def split: prod.splits)

subsection \<open>Decoding what \<^verbatim>\<open>json.Marshal\<close> wrote\<close>

lemma distinct_sorted_list_of_fmap: "distinct (map fst (sorted_list_of_fmap t))"
  by (simp add: sorted_list_of_fmap_def comp_def sorted_list_of_fset.rep_eq)

lemma Marshal_members:
  assumes "\<forall>k. k |\<in>| fmdom t \<longrightarrow> ValidString k"
  shows "Marshal (Some t) =
     Inr (JSON (JObject (map (\<lambda>(k, v). (k, JNat (unat v))) (sorted_list_of_fmap t))))"
proof -
  have "coerceUTF8 k = k" if "(k, v) \<in> set (sorted_list_of_fmap t)" for k v
  proof -
    from that have "k |\<in>| fmdom t"
      by (auto simp: sorted_list_of_fmap_def)
    with assms show ?thesis by (simp add: coerceUTF8_valid)
  qed
  then have "map (\<lambda>(k, v). (coerceUTF8 k, JNat (unat v))) (sorted_list_of_fmap t) =
             map (\<lambda>(k, v). (k, JNat (unat v))) (sorted_list_of_fmap t)"
    by (intro map_cong) auto
  then show ?thesis by (simp add: Marshal_def)
qed

lemma unat_uint64_less [simp]: "unat (v :: uint64) < 18446744073709551616"
  using unsigned_less [of v, where ?'a = nat] by simp

lemma object_marshalled:
  "object (map (\<lambda>(k, v). (k, JNat (unat v))) (sorted_list_of_fmap t)) t0 = (t0 ++\<^sub>f t, False)"
proof -
  let ?ms = "map (\<lambda>(k, v). (k, JNat (unat v))) (sorted_list_of_fmap t)"
  have bad: "\<not> list_ex (\<lambda>(k, j). snd (element j)) ?ms"
    by (auto simp: list_ex_iff)
  have "fold (\<lambda>(k, j). fmupd k (fst (element j))) ?ms t0 =
        fold (\<lambda>(k, v). fmupd k (id v)) (sorted_list_of_fmap t) t0"
    by (simp add: fold_map comp_def case_prod_unfold)
  also have "\<dots> = t0 ++\<^sub>f t"
  proof (rule fmap_ext)
    fix x
    show "fmlookup (fold (\<lambda>(k, v). fmupd k (id v)) (sorted_list_of_fmap t) t0) x =
          fmlookup (t0 ++\<^sub>f t) x"
      by (subst fold_fmupd_distinct [OF distinct_sorted_list_of_fmap])
         (auto simp: fmlookup_dom_iff split: option.splits)
  qed
  finally show ?thesis using bad by (simp add: object_fold)
qed

lemma dump_written:
  assumes "dump c d = (None, d')"
  obtains content where "Marshal (baseValues c) = Inr content"
    and "ReadFile d' (filename c) = (if filename c \<in> unreadable d' then Inl PermissionDenied else Inr content)"
  using assms
  by (auto simp: dump_def WriteFile_def ReadFile_def Marshal_def split: option.splits if_splits)

subsection \<open>Round trip\<close>

text \<open>
  C6, as the code has it. Let \<^verbatim>\<open>dump\<close> succeed and let the file be readable afterwards.
  If every key of the map of offsets is valid UTF-8, then \<^verbatim>\<open>load\<close> on the same cache
  succeeds and leaves the cache as it is, and \<^verbatim>\<open>load\<close> on any cache with the same file
  name whose map of offsets is nil or empty succeeds and gives it the map that was dumped:
  the same keys with the same values (the nil map comes back as nil). Keys built from
  ASCII section and metric names are valid UTF-8.
\<close>

theorem dump_load_round_trip:
  assumes "dump c d = (None, d')"
    and "filename c \<notin> unreadable d'"
    and "\<forall>k. mapaccess_ok (baseValues c) k \<longrightarrow> ValidString k"
  shows "load c d' = (None, c)
    \<and> (\<forall>c2. filename c2 = filename c \<and> (baseValues c2 = None \<or> baseValues c2 = Some fmempty) \<longrightarrow>
          load c2 d' = (None, c2\<lparr>baseValues := baseValues c\<rparr>))"
proof -
  from assms(1) obtain content
    where marshal: "Marshal (baseValues c) = Inr content"
      and "ReadFile d' (filename c) =
            (if filename c \<in> unreadable d' then Inl PermissionDenied else Inr content)"
    by (rule dump_written)
  with assms(2) have read: "ReadFile d' (filename c) = Inr content" by simp
  show ?thesis
  proof (cases "baseValues c")
    case None
    with marshal have "content = JSON JNull" by (simp add: Marshal_def)
    with read None show ?thesis by (auto simp: load_def)
  next
    case (Some t)
    with assms(3) have "\<forall>k. k |\<in>| fmdom t \<longrightarrow> ValidString k"
      by (simp add: fmlookup_dom_iff)
    from Marshal_members [OF this] marshal Some
    have content: "content =
        JSON (JObject (map (\<lambda>(k, v). (k, JNat (unat v))) (sorted_list_of_fmap t)))"
      by simp
    have same: "load c d' = (None, c)"
      using read Some unfolding content
      by (simp add: load_object object_marshalled orEmpty_def)
    have other: "load c2 d' = (None, c2\<lparr>baseValues := baseValues c\<rparr>)"
      if "filename c2 = filename c \<and> (baseValues c2 = None \<or> baseValues c2 = Some fmempty)" for c2
    proof -
      from that read have "ReadFile d' (filename c2) = Inr content" by simp
      with that Some show ?thesis unfolding content
        by (auto simp: load_object object_marshalled orEmpty_def)
    qed
    from same other show ?thesis by blast
  qed
qed

theorem dump_load_round_trip_witness:
  "dump \<lparr>filename = ''tpg_cache'', values = Some fmempty,
         baseValues = Some (fmupd ''status_uptime'' 4294967296 fmempty)\<rparr> noFiles =
     (None, noFiles\<lparr>files := fmupd ''tpg_cache''
        (JSON (JObject [(''status_uptime'', JNat 4294967296)])) fmempty\<rparr>)
   \<and> ValidString ''status_uptime''
   \<and> load \<lparr>filename = ''tpg_cache'', values = Some fmempty,
         baseValues = Some (fmupd ''status_uptime'' 4294967296 fmempty)\<rparr>
        (noFiles\<lparr>files := fmupd ''tpg_cache''
        (JSON (JObject [(''status_uptime'', JNat 4294967296)])) fmempty\<rparr>) =
     (None, \<lparr>filename = ''tpg_cache'', values = Some fmempty,
         baseValues = Some (fmupd ''status_uptime'' 4294967296 fmempty)\<rparr>)
   \<and> load ((init new)\<lparr>filename := ''tpg_cache''\<rparr>)
        (noFiles\<lparr>files := fmupd ''tpg_cache''
        (JSON (JObject [(''status_uptime'', JNat 4294967296)])) fmempty\<rparr>) =
     (None, \<lparr>filename = ''tpg_cache'', values = Some fmempty,
         baseValues = Some (fmupd ''status_uptime'' 4294967296 fmempty)\<rparr>)"
proof -
  let ?c = "\<lparr>filename = ''tpg_cache'', values = Some fmempty,
         baseValues = Some (fmupd ''status_uptime'' 4294967296 fmempty)\<rparr>"
  let ?d = "noFiles\<lparr>files := fmupd ''tpg_cache''
        (JSON (JObject [(''status_uptime'', JNat 4294967296)])) fmempty\<rparr>"
  have valid: "ValidString ''status_uptime''"
    by (rule ValidString_ascii) simp
  then have dumped: "dump ?c noFiles = (None, ?d)"
    by (simp add: dump_def Marshal_def sorted_list_of_fmap_single coerceUTF8_valid
        WriteFile_def noFiles_def)
  have readable: "filename ?c \<notin> unreadable ?d"
    by (simp add: noFiles_def)
  have keys: "\<forall>k. mapaccess_ok (baseValues ?c) k \<longrightarrow> ValidString k"
    using valid by auto
  from dump_load_round_trip [OF dumped readable keys]
  have "load ?c ?d = (None, ?c)"
    and "load ((init new)\<lparr>filename := ''tpg_cache''\<rparr>) ?d =
          (None, (init new)\<lparr>filename := ''tpg_cache'', baseValues := baseValues ?c\<rparr>)"
    by (simp_all add: init_def new_def)
  with valid dumped show ?thesis
    by (simp add: init_def new_def)
qed

text \<open>
  The claim as it is written speaks of every table. A key that is not valid UTF-8 is
  written with U+FFFD in place of each invalid byte. Take a cache fresh from \<^verbatim>\<open>init\<close>
  with a file name, and a counter whose section ends in the byte \<^verbatim>\<open>\xff\<close>. The readings
  10, 5 make \<^verbatim>\<open>checkOverflow\<close> store an offset and dump the table. Loading the file
  that this left behind gives an entry under the key with U+FFFD: beside the old entry
  when the same cache loads it, in place of it when a fresh cache does.
\<close>

theorem dump_load_round_trip_counterexample:
  "observeAll ((init new)\<lparr>filename := ''tpg_cache''\<rparr>) noFiles
      (''system_statistic_'' @ [CHR 0xFF]) ''total_bytes'' [10, 5] 4294967295 =
     Inr ([(10, False), (4294967300, True)],
          \<lparr>filename = ''tpg_cache'',
           values = Some (fmupd (''system_statistic_'' @ [CHR 0xFF] @ ''_total_bytes'') 5 fmempty),
           baseValues = Some (fmupd (''system_statistic_'' @ [CHR 0xFF] @ ''_total_bytes'')
                                4294967295 fmempty)\<rparr>,
          noFiles\<lparr>files := fmupd ''tpg_cache''
            (JSON (JObject [(''system_statistic_'' @ [CHR 0xEF, CHR 0xBF, CHR 0xBD] @ ''_total_bytes'',
                             JNat 4294967295)])) fmempty\<rparr>)
   \<and> load \<lparr>filename = ''tpg_cache'',
           values = Some (fmupd (''system_statistic_'' @ [CHR 0xFF] @ ''_total_bytes'') 5 fmempty),
           baseValues = Some (fmupd (''system_statistic_'' @ [CHR 0xFF] @ ''_total_bytes'')
                                4294967295 fmempty)\<rparr>
        (noFiles\<lparr>files := fmupd ''tpg_cache''
            (JSON (JObject [(''system_statistic_'' @ [CHR 0xEF, CHR 0xBF, CHR 0xBD] @ ''_total_bytes'',
                             JNat 4294967295)])) fmempty\<rparr>) =
     (None,
      \<lparr>filename = ''tpg_cache'',
       values = Some (fmupd (''system_statistic_'' @ [CHR 0xFF] @ ''_total_bytes'') 5 fmempty),
       baseValues = Some
         (fmupd (''system_statistic_'' @ [CHR 0xEF, CHR 0xBF, CHR 0xBD] @ ''_total_bytes'') 4294967295
           (fmupd (''system_statistic_'' @ [CHR 0xFF] @ ''_total_bytes'') 4294967295 fmempty))\<rparr>)
   \<and> load ((init new)\<lparr>filename := ''tpg_cache''\<rparr>)
        (noFiles\<lparr>files := fmupd ''tpg_cache''
            (JSON (JObject [(''system_statistic_'' @ [CHR 0xEF, CHR 0xBF, CHR 0xBD] @ ''_total_bytes'',
                             JNat 4294967295)])) fmempty\<rparr>) =
     (None,
      \<lparr>filename = ''tpg_cache'', values = Some fmempty,
       baseValues = Some
         (fmupd (''system_statistic_'' @ [CHR 0xEF, CHR 0xBF, CHR 0xBD] @ ''_total_bytes'') 4294967295
            fmempty)\<rparr>)
   \<and> \<not> mapaccess_ok
          (Some (fmupd (''system_statistic_'' @ [CHR 0xFF] @ ''_total_bytes'') 4294967295 fmempty))
          (''system_statistic_'' @ [CHR 0xEF, CHR 0xBF, CHR 0xBD] @ ''_total_bytes'')
   \<and> \<not> mapaccess_ok
          (Some (fmupd (''system_statistic_'' @ [CHR 0xEF, CHR 0xBF, CHR 0xBD] @ ''_total_bytes'')
                   4294967295 fmempty))
          (''system_statistic_'' @ [CHR 0xFF] @ ''_total_bytes'')"
  by (simp add: checkOverflow_def mapassign_def Let_def
      dump_def Marshal_def sorted_list_of_fmap_single coerceUTF8_def
      runeWidth.simps between_def replacementRune_def
      WriteFile_def noFiles_def load_def ReadFile_def init_def new_def)

subsection \<open>A load that fails\<close>

lemma load_changes:
  assumes "load c d = (Some err, c')" and "c' \<noteq> c"
  shows "\<exists>members. ReadFile d (filename c) = Inr (JSON (JObject members))
            \<and> list_ex (\<lambda>(k, j). snd (element j)) members"
proof (cases "ReadFile d (filename c)")
  case (Inl e)
  with assms show ?thesis by (simp add: load_def)
next
  case (Inr content)
  show ?thesis
  proof (cases content)
    case NotJSON
    with Inr assms show ?thesis by (simp add: load_def)
  next
    case (JSON j)
    with Inr assms show ?thesis
      by (cases j) (auto simp: load_def object_fold split: if_splits)
  qed
qed

text \<open>\<^verbatim>\<open>setup\<close> with the name of a file that does not exist only records the name.\<close>

lemma setup_cache_missing:
  assumes "name \<notin> unreadable d" and "fmlookup (files d) name = None"
  shows "setup_cache c d name = c\<lparr>filename := name\<rparr>"
  using assms by (simp add: setup_cache_def load_def ReadFile_def)

text \<open>
  C7, as the code has it. \<^verbatim>\<open>load\<close> always returns; it has no panic. When the file is
  missing or cannot be read, when its content is not JSON, and when its content is a JSON
  value that is neither an object nor \<^verbatim>\<open>null\<close>, \<^verbatim>\<open>load\<close> returns the error and the cache
  is exactly what it was. A failing \<^verbatim>\<open>load\<close> changes the cache in one case only: the
  content is an object with a member whose value is not a \<^verbatim>\<open>uint64\<close>; then every member
  has been stored, the inappropriate ones with the value 0.
\<close>

theorem load_failure_leaves_table:
  "(filename c \<notin> unreadable d \<and> (filename c = [] \<or> fmlookup (files d) (filename c) = None) \<longrightarrow>
      load c d = (Some NotExist, c))
   \<and> (filename c \<noteq> [] \<and> filename c \<in> unreadable d \<longrightarrow> load c d = (Some PermissionDenied, c))
   \<and> (ReadFile d (filename c) = Inr NotJSON \<longrightarrow> load c d = (Some SyntaxError, c))
   \<and> (ReadFile d (filename c) = Inr (JSON j) \<and> j \<noteq> JNull \<and> (\<forall>members. j \<noteq> JObject members) \<longrightarrow>
        load c d = (Some UnmarshalTypeError, c))
   \<and> (load c d = (Some err, c') \<and> c' \<noteq> c \<longrightarrow>
        (\<exists>members. ReadFile d (filename c) = Inr (JSON (JObject members))
            \<and> list_ex (\<lambda>(k, j). snd (element j)) members))
   \<and> (ReadFile d (filename c) = Inr (JSON (JObject ms))
        \<and> list_ex (\<lambda>(k, j). snd (element j)) ms \<longrightarrow>
        load c d =
          (Some UnmarshalTypeError,
           c\<lparr>baseValues :=
               Some (fold (\<lambda>(k, j). fmupd k (fst (element j))) ms (orEmpty (baseValues c)))\<rparr>))"
proof (intro conjI impI)
  assume "filename c \<notin> unreadable d \<and> (filename c = [] \<or> fmlookup (files d) (filename c) = None)"
  then show "load c d = (Some NotExist, c)"
    by (auto simp: load_def ReadFile_def)
next
  assume "filename c \<noteq> [] \<and> filename c \<in> unreadable d"
  then show "load c d = (Some PermissionDenied, c)"
    by (simp add: load_def ReadFile_def)
next
  assume "ReadFile d (filename c) = Inr NotJSON"
  then show "load c d = (Some SyntaxError, c)"
    by (simp add: load_def)
next
  assume "ReadFile d (filename c) = Inr (JSON j) \<and> j \<noteq> JNull \<and> (\<forall>members. j \<noteq> JObject members)"
  then show "load c d = (Some UnmarshalTypeError, c)"
    by (cases j) (simp_all add: load_def)
next
  assume "load c d = (Some err, c') \<and> c' \<noteq> c"
  then show "\<exists>members. ReadFile d (filename c) = Inr (JSON (JObject members))
            \<and> list_ex (\<lambda>(k, j). snd (element j)) members"
    using load_changes by blast
next
  assume "ReadFile d (filename c) = Inr (JSON (JObject ms))
        \<and> list_ex (\<lambda>(k, j). snd (element j)) ms"
  then show "load c d =
          (Some UnmarshalTypeError,
           c\<lparr>baseValues :=
               Some (fold (\<lambda>(k, j). fmupd k (fst (element j))) ms (orEmpty (baseValues c)))\<rparr>)"
    by (simp add: load_object object_fold)
qed

theorem load_failure_leaves_table_witness:
  "load ((init new)\<lparr>filename := ''tpg_cache''\<rparr>) noFiles =
     (Some NotExist, (init new)\<lparr>filename := ''tpg_cache''\<rparr>)
   \<and> load ((init new)\<lparr>filename := ''tpg_cache''\<rparr>) (noFiles\<lparr>unreadable := {''tpg_cache''}\<rparr>) =
     (Some PermissionDenied, (init new)\<lparr>filename := ''tpg_cache''\<rparr>)
   \<and> load ((init new)\<lparr>filename := ''tpg_cache''\<rparr>)
        (noFiles\<lparr>files := fmupd ''tpg_cache'' NotJSON fmempty\<rparr>) =
     (Some SyntaxError, (init new)\<lparr>filename := ''tpg_cache''\<rparr>)
   \<and> load ((init new)\<lparr>filename := ''tpg_cache''\<rparr>)
        (noFiles\<lparr>files := fmupd ''tpg_cache'' (JSON (JArray [JNat 1, JNat 2])) fmempty\<rparr>) =
     (Some UnmarshalTypeError, (init new)\<lparr>filename := ''tpg_cache''\<rparr>)
   \<and> load ((init new)\<lparr>filename := ''tpg_cache''\<rparr>)
        (noFiles\<lparr>files := fmupd ''tpg_cache''
           (JSON (JObject [(''status_uptime'', JString ''3 days'')])) fmempty\<rparr>) =
     (Some UnmarshalTypeError,
      \<lparr>filename = ''tpg_cache'', values = Some fmempty,
       baseValues = Some (fmupd ''status_uptime'' 0 fmempty)\<rparr>)"
proof -
  let ?c = "(init new)\<lparr>filename := ''tpg_cache''\<rparr>"
  let ?garbage = "noFiles\<lparr>files := fmupd ''tpg_cache'' NotJSON fmempty\<rparr>"
  let ?array = "noFiles\<lparr>files := fmupd ''tpg_cache'' (JSON (JArray [JNat 1, JNat 2])) fmempty\<rparr>"
  have missing: "filename ?c \<notin> unreadable noFiles
      \<and> (filename ?c = [] \<or> fmlookup (files noFiles) (filename ?c) = None)"
    by (simp add: noFiles_def)
  have denied: "filename ?c \<noteq> [] \<and> filename ?c \<in> unreadable (noFiles\<lparr>unreadable := {''tpg_cache''}\<rparr>)"
    by simp
  have garbage: "ReadFile ?garbage (filename ?c) = Inr NotJSON"
    by (simp add: ReadFile_def noFiles_def)
  have array: "ReadFile ?array (filename ?c) = Inr (JSON (JArray [JNat 1, JNat 2]))
      \<and> JArray [JNat 1, JNat 2] \<noteq> JNull \<and> (\<forall>members. JArray [JNat 1, JNat 2] \<noteq> JObject members)"
    by (simp add: ReadFile_def noFiles_def)
  from load_failure_leaves_table [of ?c noFiles] missing
  have 1: "load ?c noFiles = (Some NotExist, ?c)" by blast
  from load_failure_leaves_table [of ?c "noFiles\<lparr>unreadable := {''tpg_cache''}\<rparr>"] denied
  have 2: "load ?c (noFiles\<lparr>unreadable := {''tpg_cache''}\<rparr>) = (Some PermissionDenied, ?c)" by blast
  from load_failure_leaves_table [of ?c ?garbage] garbage
  have 3: "load ?c ?garbage = (Some SyntaxError, ?c)" by blast
  from load_failure_leaves_table [of ?c ?array "JArray [JNat 1, JNat 2]"] array
  have 4: "load ?c ?array = (Some UnmarshalTypeError, ?c)" by blast
  let ?member = "noFiles\<lparr>files := fmupd ''tpg_cache''
           (JSON (JObject [(''status_uptime'', JString ''3 days'')])) fmempty\<rparr>"
  have member: "ReadFile ?member (filename ?c) = Inr (JSON (JObject [(''status_uptime'', JString ''3 days'')]))
      \<and> list_ex (\<lambda>(k, j). snd (element j)) [(''status_uptime'', JString ''3 days'')]"
    by (simp add: ReadFile_def noFiles_def)
  from load_failure_leaves_table
    [of ?c ?member _ _ _ "[(''status_uptime'', JString ''3 days'')]"] member
  have "load ?c ?member =
          (Some UnmarshalTypeError,
           ?c\<lparr>baseValues :=
               Some (fold (\<lambda>(k, j). fmupd k (fst (element j)))
                       [(''status_uptime'', JString ''3 days'')] (orEmpty (baseValues ?c)))\<rparr>)"
    by blast
  then have 5: "load ?c ?member =
     (Some UnmarshalTypeError,
      \<lparr>filename = ''tpg_cache'', values = Some fmempty,
       baseValues = Some (fmupd ''status_uptime'' 0 fmempty)\<rparr>)"
    by (simp add: init_def new_def orEmpty_def)
  from 1 2 3 4 5 show ?thesis by blast
qed

text \<open>
  The claim as it is written covers every malformed content. A file that holds
  \<^verbatim>\<open>{"status_sent_bytes": 7, "status_uptime": -1}\<close> is not a mapping to \<^verbatim>\<open>uint64\<close>
  offsets; \<^verbatim>\<open>load\<close> reports the error, and the table that was empty now holds both keys.
\<close>

theorem load_failure_leaves_table_counterexample:
  "load ((init new)\<lparr>filename := ''tpg_cache''\<rparr>)
        (noFiles\<lparr>files := fmupd ''tpg_cache''
           (JSON (JObject [(''status_sent_bytes'', JNat 7), (''status_uptime'', JOtherNumber)]))
           fmempty\<rparr>) =
     (Some UnmarshalTypeError,
      \<lparr>filename = ''tpg_cache'', values = Some fmempty,
       baseValues = Some (fmupd ''status_uptime'' 0 (fmupd ''status_sent_bytes'' 7 fmempty))\<rparr>)
   \<and> mapaccess (Some (fmupd ''status_uptime'' 0 (fmupd ''status_sent_bytes'' 7 fmempty)))
        ''status_sent_bytes'' = 7
   \<and> mapaccess (baseValues ((init new)\<lparr>filename := ''tpg_cache''\<rparr>)) ''status_sent_bytes'' = 0"
  by (simp add: load_def ReadFile_def noFiles_def init_def new_def)

subsection \<open>A load that succeeds\<close>

text \<open>
  C8, as the code has it. When the file holds a flat object, \<^verbatim>\<open>load\<close> succeeds and
  stores the members of the file into the map of offsets that is there: afterwards the map
  has the keys of the file with the values of the file, and every entry it had before
  under a key that the file does not mention. When the map was nil or empty before, it is
  exactly the mapping of the file afterwards.
\<close>

theorem load_merges_file_into_table:
  assumes "ReadFile d (filename c) = Inr (JSON (JObject members))" and "flat members"
  shows "load c d = (None, c\<lparr>baseValues := Some (orEmpty (baseValues c) ++\<^sub>f fileTable members)\<rparr>)
    \<and> (baseValues c = None \<or> baseValues c = Some fmempty \<longrightarrow>
          load c d = (None, c\<lparr>baseValues := Some (fileTable members)\<rparr>))
    \<and> (\<forall>k. mapaccess_ok (baseValues (snd (load c d))) k \<longleftrightarrow>
          mapaccess_ok (Some (fileTable members)) k \<or> mapaccess_ok (baseValues c) k)
    \<and> (\<forall>k. mapaccess (baseValues (snd (load c d))) k =
          (if mapaccess_ok (Some (fileTable members)) k then lookup (fileTable members) k
           else mapaccess (baseValues c) k))"
proof -
  have merged: "load c d =
      (None, c\<lparr>baseValues := Some (orEmpty (baseValues c) ++\<^sub>f fileTable members)\<rparr>)"
    using assms by (simp add: load_object object_flat_fileTable)
  then have empty: "load c d = (None, c\<lparr>baseValues := Some (fileTable members)\<rparr>)"
    if "baseValues c = None \<or> baseValues c = Some fmempty"
    using that by (auto simp: orEmpty_def)
  have keys: "mapaccess_ok (baseValues (snd (load c d))) k \<longleftrightarrow>
          mapaccess_ok (Some (fileTable members)) k \<or> mapaccess_ok (baseValues c) k" for k
    unfolding merged
    by (cases "baseValues c") (auto simp: orEmpty_def fmlookup_dom_iff)
  have entries: "mapaccess (baseValues (snd (load c d))) k =
          (if mapaccess_ok (Some (fileTable members)) k then lookup (fileTable members) k
           else mapaccess (baseValues c) k)" for k
    unfolding merged
    by (cases "baseValues c") (auto simp: orEmpty_def lookup_def fmlookup_dom_iff)
  from merged empty keys entries show ?thesis by blast
qed

theorem load_merges_file_into_table_witness:
  "ReadFile (noFiles\<lparr>files := fmupd ''tpg_cache''
               (JSON (JObject [(''status_sent_bytes'', JNat 2)])) fmempty\<rparr>) ''tpg_cache'' =
     Inr (JSON (JObject [(''status_sent_bytes'', JNat 2)]))
   \<and> flat [(''status_sent_bytes'', JNat 2)]
   \<and> load \<lparr>filename = ''tpg_cache'', values = Some fmempty,
            baseValues = Some (fmupd ''status_uptime'' 1 fmempty)\<rparr>
        (noFiles\<lparr>files := fmupd ''tpg_cache''
               (JSON (JObject [(''status_sent_bytes'', JNat 2)])) fmempty\<rparr>) =
     (None, \<lparr>filename = ''tpg_cache'', values = Some fmempty,
            baseValues = Some (fmupd ''status_sent_bytes'' 2 (fmupd ''status_uptime'' 1 fmempty))\<rparr>)"
proof -
  let ?c = "\<lparr>filename = ''tpg_cache'', values = Some fmempty,
            baseValues = Some (fmupd ''status_uptime'' 1 fmempty)\<rparr>"
  let ?d = "noFiles\<lparr>files := fmupd ''tpg_cache''
               (JSON (JObject [(''status_sent_bytes'', JNat 2)])) fmempty\<rparr>"
  have read: "ReadFile ?d (filename ?c) = Inr (JSON (JObject [(''status_sent_bytes'', JNat 2)]))"
    by (simp add: ReadFile_def noFiles_def)
  have flat: "flat [(''status_sent_bytes'', JNat 2)]"
    by (simp add: flat_def)
  from load_merges_file_into_table [OF read flat]
  have "load ?c ?d = (None, ?c\<lparr>baseValues :=
      Some (orEmpty (baseValues ?c) ++\<^sub>f fileTable [(''status_sent_bytes'', JNat 2)])\<rparr>)"
    by blast
  with read flat show ?thesis
    by (simp add: orEmpty_def fileTable_def)
qed

text \<open>
  The claim as it is written lets no entry survive a successful load. With an offset for
  \<^verbatim>\<open>status_uptime\<close> in the cache and a file that holds \<^verbatim>\<open>{"status_sent_bytes": 2}\<close>, the
  offset for \<^verbatim>\<open>status_uptime\<close> is still there after the load, though the mapping of the
  file has no such key.
\<close>

theorem load_merges_file_into_table_counterexample:
  "load \<lparr>filename = ''tpg_cache'', values = Some fmempty,
            baseValues = Some (fmupd ''status_uptime'' 1 fmempty)\<rparr>
        (noFiles\<lparr>files := fmupd ''tpg_cache''
               (JSON (JObject [(''status_sent_bytes'', JNat 2)])) fmempty\<rparr>) =
     (None, \<lparr>filename = ''tpg_cache'', values = Some fmempty,
            baseValues = Some (fmupd ''status_sent_bytes'' 2 (fmupd ''status_uptime'' 1 fmempty))\<rparr>)
   \<and> flat [(''status_sent_bytes'', JNat 2)]
   \<and> fileTable [(''status_sent_bytes'', JNat 2)] = fmupd ''status_sent_bytes'' 2 fmempty
   \<and> mapaccess_ok (Some (fmupd ''status_sent_bytes'' 2 (fmupd ''status_uptime'' 1 fmempty)))
        ''status_uptime''
   \<and> \<not> mapaccess_ok (Some (fileTable [(''status_sent_bytes'', JNat 2)])) ''status_uptime''"
  by (simp add: load_def ReadFile_def noFiles_def flat_def fileTable_def)

end
